theory Spec2Isabelle
  imports Main "HOL-Library.Word"
begin

unbundle bit_operations_syntax

section \<open>Data model of \<open>std::string\<close> (src/std/string.h)\<close>

text \<open>
  The class stores 16-bit code units (\<open>data_type = short\<close>) in a heap array \<open>ptr\<close>,
  with \<open>len\<close> units in use and \<open>_str_capacity\<close> units allocated. The array is a list
  whose length is the allocated size, \<open>None\<close> is the null pointer. A code unit is kept as
  its 16-bit pattern; \<open>size_type\<close> values are natural numbers, with the 64-bit wrap-around
  written out where the source subtracts or doubles.

  The allocator is taken to satisfy every request, and a fresh array is zero-filled.
  C++ leaves it indeterminate: where a state is written out in full below, the cells
  that were never written show as 0, and no result rests on their value.
\<close>

type_synonym byte = "8 word"
type_synonym data_type = "16 word"
type_synonym uint = "32 word"

record string_obj =
  ptr :: "data_type list option"
  len :: nat
  str_capacity :: nat

datatype Encoding = ASCII | UTF8 | UTF16_LE | UTF16_BE | UTF32_LE | UTF32_BE

text \<open>
  The two exception classes the string throws (src/std/stdexcept.h): \<open>runtime_error\<close>
  with its \<open>what()\<close> message, and \<open>out_of_range\<close>.
\<close>

datatype exn = runtime_error string | out_of_range

text \<open>
  A call either returns, or throws (\<open>Throw e s\<close>, where \<open>s\<close> is the object as the
  exception leaves it), or steps outside an array (\<open>UB\<close>: a read or write past the
  end of an array or through the null pointer, to which C++ gives no meaning).
\<close>

datatype failure = Throw exn string_obj | UB

definition and_then :: "failure + 'a \<Rightarrow> ('a \<Rightarrow> failure + 'b) \<Rightarrow> failure + 'b" where
  "and_then m f = (case m of Inl e \<Rightarrow> Inl e | Inr x \<Rightarrow> f x)"

lemma and_then_Inr [simp]: "and_then (Inr x) f = f x"
  by (simp add: and_then_def)

lemma and_then_Inl [simp]: "and_then (Inl e) f = Inl e"
  by (simp add: and_then_def)

lemma and_then_cong [fundef_cong]:
  "m = m' \<Longrightarrow> (\<And>x. m' = Inr x \<Longrightarrow> f x = f' x) \<Longrightarrow> and_then m f = and_then m' f'"
  by (cases m') (simp_all add: and_then_def)

definition npos :: nat where
  "npos = 2 ^ 64 - 1"

subsection \<open>Memory primitives\<close>

definition new_array :: "nat \<Rightarrow> 'a::zero list option" where
  "new_array n = Some (replicate n 0)"

text \<open>
  \<open>memcpy\<close> of src/std/algorithm.h, counted in array elements: it does nothing when either
  pointer is null, and otherwise copies the first \<open>n\<close> elements.
\<close>

definition memcpy :: "'a list option \<Rightarrow> 'a list option \<Rightarrow> nat \<Rightarrow> failure + 'a list option" where
  "memcpy dst src n =
     (case dst of None \<Rightarrow> Inr dst
      | Some d \<Rightarrow>
         (case src of None \<Rightarrow> Inr dst
          | Some s \<Rightarrow>
             if n \<le> length d \<and> n \<le> length s then Inr (Some (take n s @ drop n d))
             else Inl UB))"

text \<open>\<open>ptr[i]\<close> as an rvalue and \<open>ptr[i] = v\<close>.\<close>

definition load :: "'a list option \<Rightarrow> nat \<Rightarrow> failure + 'a" where
  "load p i =
     (case p of None \<Rightarrow> Inl UB
      | Some buf \<Rightarrow> if i < length buf then Inr (buf ! i) else Inl UB)"

definition store :: "string_obj \<Rightarrow> nat \<Rightarrow> data_type \<Rightarrow> failure + string_obj" where
  "store s i v =
     (case ptr s of None \<Rightarrow> Inl UB
      | Some buf \<Rightarrow> if i < length buf then Inr (s\<lparr>ptr := Some (buf[i := v])\<rparr>) else Inl UB)"

subsection \<open>Growth: \<open>ensure_capacity\<close> (string.h 1257-1275)\<close>

definition ensure_capacity :: "string_obj \<Rightarrow> nat \<Rightarrow> failure + string_obj" where
  "ensure_capacity s new_str_capacity =
     (if new_str_capacity > str_capacity s then
        let new_cap0 = (if str_capacity s = 0 then 8 else (str_capacity s * 2) mod 2 ^ 64);
            new_cap = (if new_cap0 < new_str_capacity then new_str_capacity else new_cap0);
            new_ptr = new_array new_cap
        in and_then
             (if ptr s \<noteq> None \<and> len s > 0 then memcpy new_ptr (ptr s) (len s)
              else Inr new_ptr)
             (\<lambda>p. Inr (s\<lparr>ptr := p, str_capacity := new_cap\<rparr>))
      else Inr s)"

text \<open>
  The shape every member function relies on when it writes: the array, when there is
  one, has \<open>_str_capacity\<close> cells, the null pointer goes with capacity 0, and the
  units in use fit.
\<close>

definition well_formed :: "string_obj \<Rightarrow> bool" where
  "well_formed s = (len s \<le> str_capacity s \<and>
     (case ptr s of None \<Rightarrow> str_capacity s = 0 | Some buf \<Rightarrow> length buf = str_capacity s))"

text \<open>The invariant as the specification words it.\<close>

definition invariant :: "string_obj \<Rightarrow> bool" where
  "invariant s = (len s \<le> str_capacity s \<and> (str_capacity s = 0 \<longleftrightarrow> ptr s = None))"

text \<open>The code units a caller can observe: the first \<open>len\<close> cells.\<close>

definition units :: "string_obj \<Rightarrow> data_type list" where
  "units s = (case ptr s of None \<Rightarrow> [] | Some buf \<Rightarrow> take (len s) buf)"

subsection \<open>Constructors, capacity and size operations\<close>

text \<open>The default member initialisers (string.h 829-831).\<close>

definition init_obj :: string_obj where
  "init_obj = \<lparr>ptr = None, len = 0, str_capacity = 0\<rparr>"

text \<open>\<open>string()\<close> (string.h 177-182).\<close>

definition string_default :: "failure + string_obj" where
  "string_default = and_then (ensure_capacity init_obj 1) (\<lambda>s. store s 0 0)"

text \<open>\<open>string(const string &)\<close> (string.h 190-199).\<close>

definition string_copy :: "string_obj \<Rightarrow> failure + string_obj" where
  "string_copy other =
     (let s = \<lparr>ptr = None, len = len other, str_capacity = str_capacity other\<rparr>
      in if len s > 0 then
           and_then (memcpy (new_array (str_capacity s)) (ptr other) (len s))
             (\<lambda>p. Inr (s\<lparr>ptr := p\<rparr>))
         else Inr s)"

text \<open>\<open>at\<close> (string.h 353-360).\<close>

definition at_index :: "string_obj \<Rightarrow> nat \<Rightarrow> failure + data_type" where
  "at_index s index = (if index \<ge> len s then Inl (Throw out_of_range s) else load (ptr s) index)"

definition reserve :: "string_obj \<Rightarrow> nat \<Rightarrow> failure + string_obj" where
  "reserve s n = ensure_capacity s n"

text \<open>\<open>shrink_to_fit\<close> (string.h 424-431).\<close>

definition shrink_to_fit :: "string_obj \<Rightarrow> failure + string_obj" where
  "shrink_to_fit s =
     (let s1 = s\<lparr>str_capacity := len s\<rparr>
      in and_then (memcpy (new_array (str_capacity s1)) (ptr s) (len s))
           (\<lambda>p. Inr (s1\<lparr>ptr := p\<rparr>)))"

definition resize :: "string_obj \<Rightarrow> nat \<Rightarrow> failure + string_obj" where
  "resize s new_size = and_then (ensure_capacity s new_size) (\<lambda>s1. Inr (s1\<lparr>len := new_size\<rparr>))"

definition clear :: "string_obj \<Rightarrow> string_obj" where
  "clear s = s\<lparr>ptr := None, len := 0, str_capacity := 0\<rparr>"

subsection \<open>Appending code units (string.h 451-469)\<close>

text \<open>\<open>ptr[len++] = ch\<close>.\<close>

definition put_unit :: "string_obj \<Rightarrow> data_type \<Rightarrow> failure + string_obj" where
  "put_unit s ch = and_then (store s (len s) ch) (\<lambda>s1. Inr (s1\<lparr>len := len s + 1\<rparr>))"

text \<open>\<open>append(data_type)\<close>; \<open>push_back\<close> has the same body.\<close>

definition append_unit :: "string_obj \<Rightarrow> data_type \<Rightarrow> failure + string_obj" where
  "append_unit s ch = and_then (ensure_capacity s (len s + 1)) (\<lambda>s1. put_unit s1 ch)"

text \<open>
  \<open>memcpy(ptr + len, other.ptr, n)\<close>: the destination starts \<open>off\<close> cells into the array.
  Adding a non-zero offset to the null pointer has no meaning.
\<close>

definition memcpy_at :: "'a list option \<Rightarrow> nat \<Rightarrow> 'a list option \<Rightarrow> nat \<Rightarrow> failure + 'a list option" where
  "memcpy_at dst off src n =
     (case dst of None \<Rightarrow> if off = 0 then Inr dst else Inl UB
      | Some d \<Rightarrow>
         (case src of None \<Rightarrow> Inr dst
          | Some s \<Rightarrow>
             if off + n \<le> length d \<and> n \<le> length s
             then Inr (Some (take off d @ take n s @ drop (off + n) d))
             else Inl UB))"

text \<open>\<open>append(const string &)\<close>.\<close>

definition append_string :: "string_obj \<Rightarrow> string_obj \<Rightarrow> failure + string_obj" where
  "append_string s other =
     and_then (ensure_capacity s (len s + len other)) (\<lambda>s1.
     and_then (memcpy_at (ptr s1) (len s1) (ptr other) (len other)) (\<lambda>p.
     Inr (s1\<lparr>ptr := p, len := len s1 + len other\<rparr>)))"

subsection \<open>Byte input\<close>

text \<open>
  A \<open>const char *\<close> argument is the array it points into: \<open>str ! i\<close> is \<open>str[i]\<close>, read
  as \<open>unsigned char\<close>, and a read past the array is \<open>UB\<close>. A string literal carries
  its terminating zero byte.
\<close>

definition rd :: "byte list \<Rightarrow> nat \<Rightarrow> failure + byte" where
  "rd str i = (if i < length str then Inr (str ! i) else Inl UB)"

definition c_str :: "byte list \<Rightarrow> byte list" where
  "c_str bs = bs @ [0]"

text \<open>\<open>strlen\<close> (src/std/cstring.h): counts up to the first zero byte.\<close>

fun strlen :: "byte list \<Rightarrow> failure + nat" where
  "strlen [] = Inl UB"
| "strlen (b # bs) = (if b = 0 then Inr 0 else and_then (strlen bs) (\<lambda>n. Inr (Suc n)))"

subsection \<open>Encoding detection (string.h 943-1015)\<close>

function detect_utf8_heuristic_loop ::
  "byte list \<Rightarrow> int \<Rightarrow> nat \<Rightarrow> nat \<Rightarrow> nat \<Rightarrow> failure + Encoding" where
  "detect_utf8_heuristic_loop str len_in i utf8_sequence_count expected_continuation_bytes =
     (if int i < len_in then
        and_then (rd str i) (\<lambda>byte.
          if expected_continuation_bytes = 0 then
            if byte \<le> 0x7F then
              detect_utf8_heuristic_loop str len_in (i + 1) utf8_sequence_count 0
            else if byte AND 0xE0 = 0xC0 then
              detect_utf8_heuristic_loop str len_in (i + 1) (utf8_sequence_count + 1) 1
            else if byte AND 0xF0 = 0xE0 then
              detect_utf8_heuristic_loop str len_in (i + 1) (utf8_sequence_count + 1) 2
            else if byte AND 0xF8 = 0xF0 then
              detect_utf8_heuristic_loop str len_in (i + 1) (utf8_sequence_count + 1) 3
            else Inr ASCII
          else
            if byte AND 0xC0 \<noteq> 0x80 then Inr ASCII
            else detect_utf8_heuristic_loop str len_in (i + 1) utf8_sequence_count
                   (expected_continuation_bytes - 1))
      else Inr (if utf8_sequence_count > 0 then UTF8 else ASCII))"
  by pat_completeness auto
termination
  by (relation "measure (\<lambda>(str, len_in, i, c, e). nat (len_in - int i))") auto

declare detect_utf8_heuristic_loop.simps [simp del]

definition detect_utf8_heuristic :: "byte list \<Rightarrow> int \<Rightarrow> failure + Encoding" where
  "detect_utf8_heuristic str len_in = detect_utf8_heuristic_loop str len_in 0 0 0"

text \<open>
  The conditions of \<open>detect_encoding\<close> read \<open>bytes[k]\<close> only as far as \<open>&&\<close> evaluates
  them; \<open>all_of\<close> is that left-to-right evaluation.
\<close>

definition byte_is :: "byte list \<Rightarrow> nat \<Rightarrow> byte \<Rightarrow> failure + bool" where
  "byte_is str k v = and_then (rd str k) (\<lambda>b. Inr (b = v))"

fun all_of :: "(failure + bool) list \<Rightarrow> failure + bool" where
  "all_of [] = Inr True"
| "all_of (c # cs) = and_then c (\<lambda>b. if b then all_of cs else Inr False)"

definition detect_encoding :: "byte list \<Rightarrow> int \<Rightarrow> failure + Encoding" where
  "detect_encoding str len_in0 =
     and_then (if len_in0 = -1 then and_then (strlen str) (\<lambda>n. Inr (int n)) else Inr len_in0)
       (\<lambda>len_in.
     if len_in < 2 then Inr ASCII
     else
     and_then (all_of [Inr (len_in \<ge> 3), byte_is str 0 0xEF, byte_is str 1 0xBB, byte_is str 2 0xBF])
       (\<lambda>utf8_bom.
     if utf8_bom then Inr UTF8
     else
     and_then (all_of [Inr (len_in \<ge> 2), byte_is str 0 0xFE, byte_is str 1 0xFF])
       (\<lambda>utf16be_bom.
     if utf16be_bom then Inr UTF16_BE
     else
     and_then (all_of [Inr (len_in \<ge> 2), byte_is str 0 0xFF, byte_is str 1 0xFE])
       (\<lambda>utf16le_bom.
     if utf16le_bom then Inr UTF16_LE
     else
     and_then (all_of [Inr (len_in \<ge> 4), byte_is str 0 0x00, byte_is str 1 0x00,
                       byte_is str 2 0xFE, byte_is str 3 0xFF])
       (\<lambda>utf32be_bom.
     if utf32be_bom then Inr UTF32_BE
     else
     and_then (all_of [Inr (len_in \<ge> 4), byte_is str 0 0xFF, byte_is str 1 0xFE,
                       byte_is str 2 0x00, byte_is str 3 0x00])
       (\<lambda>utf32le_bom.
     if utf32le_bom then Inr UTF32_LE
     else detect_utf8_heuristic str len_in))))))"

subsection \<open>Decoding to UTF-16 (string.h 1017-1255)\<close>

text \<open>
  Each decoder is the loop of the source, with the loop body as a function that returns
  the object and the advanced indices, or the exception the body throws.
\<close>

definition utf8_step ::
  "byte list \<Rightarrow> nat \<Rightarrow> string_obj \<Rightarrow> nat \<Rightarrow> nat \<Rightarrow> failure + (string_obj \<times> nat \<times> nat)" where
  "utf8_step str len_in s i utf16_index =
     and_then (rd str i) (\<lambda>first_byte.
     if first_byte < 0x80 then
       and_then (ensure_capacity s (utf16_index + 1)) (\<lambda>s1.
       and_then (store s1 utf16_index (ucast first_byte)) (\<lambda>s2.
       Inr (s2, i + 1, utf16_index + 1)))
     else if first_byte AND 0xE0 = 0xC0 then
       if i + 1 \<ge> len_in then Inl (Throw (runtime_error ''Incomplete UTF-8 sequence'') s)
       else
       and_then (rd str (i + 1)) (\<lambda>second_byte.
       if second_byte AND 0xC0 \<noteq> 0x80
       then Inl (Throw (runtime_error ''Invalid UTF-8 sequence'') s)
       else
       let code_point :: uint =
             push_bit 6 (ucast first_byte AND 0x1F) OR (ucast second_byte AND 0x3F)
       in
       and_then (ensure_capacity s (utf16_index + 1)) (\<lambda>s1.
       and_then (store s1 utf16_index (ucast code_point)) (\<lambda>s2.
       Inr (s2, i + 2, utf16_index + 1))))
     else if first_byte AND 0xF0 = 0xE0 then
       if i + 2 \<ge> len_in then Inl (Throw (runtime_error ''Incomplete UTF-8 sequence'') s)
       else
       and_then (rd str (i + 1)) (\<lambda>second_byte.
       and_then (rd str (i + 2)) (\<lambda>third_byte.
       if second_byte AND 0xC0 \<noteq> 0x80 \<or> third_byte AND 0xC0 \<noteq> 0x80
       then Inl (Throw (runtime_error ''Invalid UTF-8 sequence'') s)
       else
       let code_point :: uint =
             push_bit 12 (ucast first_byte AND 0x0F) OR push_bit 6 (ucast second_byte AND 0x3F)
             OR (ucast third_byte AND 0x3F)
       in
       and_then (ensure_capacity s (utf16_index + 1)) (\<lambda>s1.
       and_then (store s1 utf16_index (ucast code_point)) (\<lambda>s2.
       Inr (s2, i + 3, utf16_index + 1)))))
     else if first_byte AND 0xF8 = 0xF0 then
       if i + 3 \<ge> len_in then Inl (Throw (runtime_error ''Incomplete UTF-8 sequence'') s)
       else
       and_then (rd str (i + 1)) (\<lambda>second_byte.
       and_then (rd str (i + 2)) (\<lambda>third_byte.
       and_then (rd str (i + 3)) (\<lambda>fourth_byte.
       if second_byte AND 0xC0 \<noteq> 0x80 \<or> third_byte AND 0xC0 \<noteq> 0x80
          \<or> fourth_byte AND 0xC0 \<noteq> 0x80
       then Inl (Throw (runtime_error ''Invalid UTF-8 sequence'') s)
       else
       let code_point0 :: uint =
             push_bit 18 (ucast first_byte AND 0x07) OR push_bit 12 (ucast second_byte AND 0x3F)
             OR push_bit 6 (ucast third_byte AND 0x3F) OR (ucast fourth_byte AND 0x3F);
           code_point = code_point0 - 0x10000
       in
       and_then (ensure_capacity s (utf16_index + 2)) (\<lambda>s1.
       and_then (store s1 utf16_index (ucast (0xD800 OR (drop_bit 10 code_point AND 0x3FF)))) (\<lambda>s2.
       and_then (store s2 (utf16_index + 1) (ucast (0xDC00 OR (code_point AND 0x3FF)))) (\<lambda>s3.
       Inr (s3, i + 4, utf16_index + 2)))))))
     else Inl (Throw (runtime_error ''Invalid UTF-8 start byte'') s))"

lemma utf8_step_advances:
  "utf8_step str len_in s i utf16_index = Inr (s', i', idx') \<Longrightarrow> i < i'"
  by (auto simp: utf8_step_def Let_def and_then_def split: if_splits sum.splits)

function convert_utf8_loop ::
  "byte list \<Rightarrow> nat \<Rightarrow> string_obj \<Rightarrow> nat \<Rightarrow> nat \<Rightarrow> failure + string_obj" where
  "convert_utf8_loop str len_in s i utf16_index =
     (if i < len_in then
        and_then (utf8_step str len_in s i utf16_index)
          (\<lambda>(s', i', idx'). convert_utf8_loop str len_in s' i' idx')
      else Inr (s\<lparr>len := utf16_index\<rparr>))"
  by pat_completeness auto
termination
  by (relation "measure (\<lambda>(str, len_in, s, i, idx). len_in - i)")
     (auto dest: utf8_step_advances)

declare convert_utf8_loop.simps [simp del]

definition convert_utf8_to_utf16 :: "string_obj \<Rightarrow> byte list \<Rightarrow> nat \<Rightarrow> failure + string_obj" where
  "convert_utf8_to_utf16 s str len_in = convert_utf8_loop str len_in s 0 0"

text \<open>
  The two UTF-16 decoders differ only in which byte of a pair is the high one:
  \<open>be\<close> selects \<open>convert_utf16be_to_utf16\<close>.
\<close>

definition utf16_unit :: "bool \<Rightarrow> byte list \<Rightarrow> nat \<Rightarrow> failure + data_type" where
  "utf16_unit be str i =
     and_then (rd str (if be then i else i + 1)) (\<lambda>hi.
     and_then (rd str (if be then i + 1 else i)) (\<lambda>lo.
     Inr (push_bit 8 (ucast hi) OR ucast lo)))"

definition utf16_step ::
  "bool \<Rightarrow> byte list \<Rightarrow> nat \<Rightarrow> string_obj \<Rightarrow> nat \<Rightarrow> failure + (string_obj \<times> nat)" where
  "utf16_step be str len_in s i =
     and_then (utf16_unit be str i) (\<lambda>code_unit.
     and_then (ensure_capacity s (len s + 1)) (\<lambda>s1.
     and_then (put_unit s1 code_unit) (\<lambda>s2.
     if code_unit \<ge> 0xD800 \<and> code_unit \<le> 0xDBFF then
       if i + 2 \<ge> len_in then Inl (Throw (runtime_error ''Incomplete surrogate pair'') s2)
       else
       and_then (utf16_unit be str (i + 2)) (\<lambda>low_surrogate.
       if low_surrogate < 0xDC00 \<or> low_surrogate > 0xDFFF
       then Inl (Throw (runtime_error ''Invalid low surrogate'') s2)
       else
       and_then (ensure_capacity s2 (len s2 + 1)) (\<lambda>s3.
       and_then (put_unit s3 low_surrogate) (\<lambda>s4.
       Inr (s4, i + 2 + 2))))
     else Inr (s2, i + 2))))"

lemma utf16_step_advances:
  "utf16_step be str len_in s i = Inr (s', i') \<Longrightarrow> i < i'"
  by (auto simp: utf16_step_def Let_def and_then_def split: if_splits sum.splits)

function convert_utf16_loop ::
  "bool \<Rightarrow> byte list \<Rightarrow> nat \<Rightarrow> string_obj \<Rightarrow> nat \<Rightarrow> failure + string_obj" where
  "convert_utf16_loop be str len_in s i =
     (if i < len_in then
        and_then (utf16_step be str len_in s i)
          (\<lambda>(s', i'). convert_utf16_loop be str len_in s' i')
      else Inr s)"
  by pat_completeness auto
termination
  by (relation "measure (\<lambda>(be, str, len_in, s, i). len_in - i)")
     (auto dest: utf16_step_advances)

declare convert_utf16_loop.simps [simp del]

definition convert_utf16le_to_utf16 :: "string_obj \<Rightarrow> byte list \<Rightarrow> nat \<Rightarrow> failure + string_obj" where
  "convert_utf16le_to_utf16 s str len_in =
     and_then (ensure_capacity s (len_in div 2)) (\<lambda>s1.
     convert_utf16_loop False str len_in (s1\<lparr>len := 0\<rparr>) 0)"

definition convert_utf16be_to_utf16 :: "string_obj \<Rightarrow> byte list \<Rightarrow> nat \<Rightarrow> failure + string_obj" where
  "convert_utf16be_to_utf16 s str len_in =
     and_then (ensure_capacity s (len_in div 2)) (\<lambda>s1.
     convert_utf16_loop True str len_in (s1\<lparr>len := 0\<rparr>) 0)"

text \<open>Likewise the two UTF-32 decoders.\<close>

definition utf32_code_point :: "bool \<Rightarrow> byte list \<Rightarrow> nat \<Rightarrow> failure + uint" where
  "utf32_code_point be str i =
     and_then (rd str i) (\<lambda>b0.
     and_then (rd str (i + 1)) (\<lambda>b1.
     and_then (rd str (i + 2)) (\<lambda>b2.
     and_then (rd str (i + 3)) (\<lambda>b3.
     Inr (if be
          then push_bit 24 (ucast b0) OR push_bit 16 (ucast b1) OR push_bit 8 (ucast b2) OR ucast b3
          else ucast b0 OR push_bit 8 (ucast b1) OR push_bit 16 (ucast b2) OR push_bit 24 (ucast b3))))))"

definition utf32_step :: "bool \<Rightarrow> byte list \<Rightarrow> string_obj \<Rightarrow> nat \<Rightarrow> failure + string_obj" where
  "utf32_step be str s i =
     and_then (utf32_code_point be str i) (\<lambda>code_point0.
     if code_point0 \<le> 0xFFFF then
       and_then (ensure_capacity s (len s + 1)) (\<lambda>s1.
       put_unit s1 (ucast code_point0))
     else if code_point0 \<le> 0x10FFFF then
       let code_point = code_point0 - 0x10000 in
       and_then (ensure_capacity s (len s + 2)) (\<lambda>s1.
       and_then (put_unit s1 (ucast (0xD800 OR (drop_bit 10 code_point AND 0x3FF)))) (\<lambda>s2.
       put_unit s2 (ucast (0xDC00 OR (code_point AND 0x3FF)))))
     else Inl (Throw (runtime_error ''Invalid Unicode code point'') s))"

function convert_utf32_loop ::
  "bool \<Rightarrow> byte list \<Rightarrow> nat \<Rightarrow> string_obj \<Rightarrow> nat \<Rightarrow> failure + string_obj" where
  "convert_utf32_loop be str len_in s i =
     (if i < len_in then
        and_then (utf32_step be str s i) (\<lambda>s'. convert_utf32_loop be str len_in s' (i + 4))
      else Inr s)"
  by pat_completeness auto
termination
  by (relation "measure (\<lambda>(be, str, len_in, s, i). len_in - i)") auto

declare convert_utf32_loop.simps [simp del]

definition convert_utf32le_to_utf16 :: "string_obj \<Rightarrow> byte list \<Rightarrow> nat \<Rightarrow> failure + string_obj" where
  "convert_utf32le_to_utf16 s str len_in =
     and_then (ensure_capacity s (len_in div 4 * 2)) (\<lambda>s1.
     convert_utf32_loop False str len_in (s1\<lparr>len := 0\<rparr>) 0)"

definition convert_utf32be_to_utf16 :: "string_obj \<Rightarrow> byte list \<Rightarrow> nat \<Rightarrow> failure + string_obj" where
  "convert_utf32be_to_utf16 s str len_in =
     and_then (ensure_capacity s (len_in div 4 * 2)) (\<lambda>s1.
     convert_utf32_loop True str len_in (s1\<lparr>len := 0\<rparr>) 0)"

text \<open>
  The ASCII branch of \<open>convert_to_utf16\<close> casts a plain \<open>char\<close> to \<open>short\<close>. Whether
  \<open>char\<close> is signed is the compiler's choice, so it is a parameter: the cast
  sign-extends when it is, and zero-extends when it is not.
\<close>

definition char_to_data_type :: "bool \<Rightarrow> byte \<Rightarrow> data_type" where
  "char_to_data_type char_signed c = (if char_signed then scast c else ucast c)"

function convert_ascii_loop ::
  "bool \<Rightarrow> byte list \<Rightarrow> int \<Rightarrow> string_obj \<Rightarrow> nat \<Rightarrow> failure + string_obj" where
  "convert_ascii_loop char_signed str len_in s i =
     (if int i < len_in then
        and_then (rd str i) (\<lambda>c.
        and_then (put_unit s (char_to_data_type char_signed c)) (\<lambda>s'.
        convert_ascii_loop char_signed str len_in s' (i + 1)))
      else Inr s)"
  by pat_completeness auto
termination
  by (relation "measure (\<lambda>(sg, str, len_in, s, i). nat (len_in - int i))") auto

declare convert_ascii_loop.simps [simp del]

text \<open>\<open>convert_to_utf16\<close>: \<open>len_in\<close> is the \<open>ssize_type\<close> argument, \<open>-1\<close> for "up to the terminator".\<close>

definition convert_to_utf16 ::
  "bool \<Rightarrow> string_obj \<Rightarrow> byte list \<Rightarrow> int \<Rightarrow> Encoding \<Rightarrow> failure + string_obj" where
  "convert_to_utf16 char_signed s str len_in encoding =
     and_then (if len_in = -1 then strlen str else Inr (nat (len_in mod 2 ^ 64))) (\<lambda>true_len.
     and_then (ensure_capacity s true_len) (\<lambda>s1.
     let s2 = s1\<lparr>len := 0\<rparr> in
     case encoding of
       ASCII \<Rightarrow> convert_ascii_loop char_signed str len_in s2 0
     | UTF8 \<Rightarrow> convert_utf8_to_utf16 s2 str true_len
     | UTF16_LE \<Rightarrow> convert_utf16le_to_utf16 s2 str true_len
     | UTF16_BE \<Rightarrow> convert_utf16be_to_utf16 s2 str true_len
     | UTF32_LE \<Rightarrow> convert_utf32le_to_utf16 s2 str true_len
     | UTF32_BE \<Rightarrow> convert_utf32be_to_utf16 s2 str true_len))"

text \<open>\<open>string(const char *str, ssize_type len_in = -1)\<close> (string.h 184-188).\<close>

definition string_from_bytes :: "bool \<Rightarrow> byte list \<Rightarrow> int \<Rightarrow> failure + string_obj" where
  "string_from_bytes char_signed str len_in =
     and_then (detect_encoding str len_in) (\<lambda>encoding.
     convert_to_utf16 char_signed init_obj str len_in encoding)"

text \<open>\<open>append(const char *)\<close> (string.h 439-444).\<close>

definition append_bytes :: "bool \<Rightarrow> string_obj \<Rightarrow> byte list \<Rightarrow> failure + string_obj" where
  "append_bytes char_signed s str =
     and_then (detect_encoding str (-1)) (\<lambda>encoding.
     convert_to_utf16 char_signed s str (-1) encoding)"

subsection \<open>Re-encoding to UTF-8: \<open>throw_away\<close> (string.h 707-776)\<close>

text \<open>
  \<open>throw_away_string(const char *)\<close> (string.h 78-84) copies the C string it is given;
  the value is the \<open>size()\<close> bytes that \<open>c_str()\<close> points to.
\<close>

definition throw_away_string :: "byte list \<Rightarrow> failure + byte list" where
  "throw_away_string str = and_then (strlen str) (\<lambda>n. Inr (take n str))"

text \<open>\<open>utf8_result[j++] = b\<close> for each \<open>b\<close> in turn.\<close>

fun put_bytes :: "byte list \<Rightarrow> nat \<Rightarrow> byte list \<Rightarrow> failure + byte list" where
  "put_bytes utf8_result j [] = Inr utf8_result"
| "put_bytes utf8_result j (b # bs) =
     (if j < length utf8_result then put_bytes (utf8_result[j := b]) (j + 1) bs else Inl UB)"

definition throw_away_step ::
  "string_obj \<Rightarrow> nat \<Rightarrow> nat \<Rightarrow> byte list \<Rightarrow> failure + (nat \<times> nat \<times> byte list)" where
  "throw_away_step s i j utf8_result =
     and_then (load (ptr s) i) (\<lambda>code_unit.
     if code_unit < 0x80 then
       and_then (put_bytes utf8_result j [ucast code_unit]) (\<lambda>r. Inr (i + 1, j + 1, r))
     else if code_unit < 0x800 then
       and_then (put_bytes utf8_result j
                   [ucast (0xC0 OR drop_bit 6 code_unit), ucast (0x80 OR (code_unit AND 0x3F))])
         (\<lambda>r. Inr (i + 1, j + 2, r))
     else if code_unit \<ge> 0xD800 \<and> code_unit \<le> 0xDBFF then
       and_then (load (ptr s) (i + 1)) (\<lambda>low_surrogate.
       if low_surrogate \<ge> 0xDC00 \<and> low_surrogate \<le> 0xDFFF then
         let code_point :: uint =
               0x10000 + push_bit 10 (ucast code_unit - 0xD800) + (ucast low_surrogate - 0xDC00)
         in
         and_then (put_bytes utf8_result j
                     [ucast (0xF0 OR drop_bit 18 code_point),
                      ucast (0x80 OR (drop_bit 12 code_point AND 0x3F)),
                      ucast (0x80 OR (drop_bit 6 code_point AND 0x3F)),
                      ucast (0x80 OR (code_point AND 0x3F))])
           (\<lambda>r. Inr (i + 2, j + 4, r))
       else Inr (i + 1, j, utf8_result))
     else if code_unit \<ge> 0xDC00 \<and> code_unit \<le> 0xDFFF then Inr (i + 1, j, utf8_result)
     else
       and_then (put_bytes utf8_result j
                   [ucast (0xE0 OR drop_bit 12 code_unit),
                    ucast (0x80 OR (drop_bit 6 code_unit AND 0x3F)),
                    ucast (0x80 OR (code_unit AND 0x3F))])
         (\<lambda>r. Inr (i + 1, j + 3, r)))"

lemma throw_away_step_advances:
  "throw_away_step s i j r = Inr (i', j', r') \<Longrightarrow> i < i'"
  by (auto simp: throw_away_step_def Let_def and_then_def split: if_splits sum.splits)

function throw_away_loop :: "string_obj \<Rightarrow> nat \<Rightarrow> nat \<Rightarrow> byte list \<Rightarrow> failure + byte list" where
  "throw_away_loop s i j utf8_result =
     (if i < len s then
        and_then (throw_away_step s i j utf8_result)
          (\<lambda>(i', j', r). throw_away_loop s i' j' r)
      else Inr utf8_result)"
  by pat_completeness auto
termination
  by (relation "measure (\<lambda>(s, i, j, r). len s - i)")
     (auto dest: throw_away_step_advances)

declare throw_away_loop.simps [simp del]

text \<open>
  The result buffer is \<open>new char[len + 1]\<close>, zeroed by \<open>memset\<close>; the literal
  \<open>"\0"\<close> of the null-pointer case is the two zero bytes of that array.
\<close>

definition throw_away :: "string_obj \<Rightarrow> failure + byte list" where
  "throw_away s =
     (if ptr s = None then throw_away_string [0, 0]
      else and_then (throw_away_loop s 0 0 (replicate (len s + 1) 0)) throw_away_string)"

subsection \<open>Searching: \<open>find\<close> (string.h 581-603)\<close>

text \<open>The inner loop: do the \<open>n\<close> units of the needle match the haystack at \<open>i\<close>?\<close>

function find_match ::
  "data_type list option \<Rightarrow> data_type list option \<Rightarrow> nat \<Rightarrow> nat \<Rightarrow> nat \<Rightarrow> failure + bool" where
  "find_match p q n i j =
     (if j < n then
        and_then (load p (i + j)) (\<lambda>a.
        and_then (load q j) (\<lambda>b.
        if a \<noteq> b then Inr False else find_match p q n i (j + 1)))
      else Inr True)"
  by pat_completeness auto
termination
  by (relation "measure (\<lambda>(p, q, n, i, j). n - j)") auto

declare find_match.simps [simp del]

lemma find_match_False_in_bounds:
  assumes "find_match p q n i j = Inr False"
  shows "\<exists>buf. p = Some buf \<and> i < length buf"
proof -
  from assms have "j < n"
    by (subst (asm) find_match.simps) (simp split: if_splits)
  with assms obtain a where "load p (i + j) = Inr a"
    by (subst (asm) find_match.simps) (auto simp: and_then_def split: sum.splits)
  then show ?thesis
    by (auto simp: load_def split: option.splits if_splits)
qed

text \<open>
  The outer loop, \<open>for (i = pos; i <= len - str.len; ++i)\<close>; the bound is the
  unsigned difference, which wraps when the needle is longer than the haystack.
\<close>

function find_loop :: "string_obj \<Rightarrow> string_obj \<Rightarrow> nat \<Rightarrow> failure + nat" where
  "find_loop s str i =
     (if i \<le> (len s + 2 ^ 64 - len str) mod 2 ^ 64 then
        and_then (find_match (ptr s) (ptr str) (len str) i 0) (\<lambda>found.
        if found then Inr i else find_loop s str (i + 1))
      else Inr npos)"
  by pat_completeness auto
termination
proof (relation "measure (\<lambda>(s, str, i). (case ptr s of None \<Rightarrow> 0 | Some buf \<Rightarrow> length buf) - i)")
  show "wf (measure (\<lambda>(s, str, i). (case ptr s of None \<Rightarrow> 0 | Some buf \<Rightarrow> length buf) - i))"
    by simp
next
  fix s str :: string_obj and i :: nat and found :: bool
  assume "find_match (ptr s) (ptr str) (len str) i 0 = Inr found" and "\<not> found"
  then have "find_match (ptr s) (ptr str) (len str) i 0 = Inr False" by simp
  then obtain buf where "ptr s = Some buf" and "i < length buf"
    using find_match_False_in_bounds by blast
  then show "((s, str, i + 1), (s, str, i))
               \<in> measure (\<lambda>(s, str, i). (case ptr s of None \<Rightarrow> 0 | Some buf \<Rightarrow> length buf) - i)"
    by simp
qed

declare find_loop.simps [simp del]

definition find_str :: "string_obj \<Rightarrow> string_obj \<Rightarrow> nat \<Rightarrow> failure + nat" where
  "find_str s str pos =
     (if pos \<ge> len s then Inr npos
      else if len str = 0 then Inr pos
      else find_loop s str pos)"

subsection \<open>Error kinds\<close>

text \<open>
  The specification names the failures of decoding by kind. In the source each is a
  \<open>std::runtime_error\<close> told apart by its message; the kinds group the messages of
  the throw sites (string.h 1075-1131, 1153-1159 and 1183-1189, 1223 and 1252).
\<close>

definition MalformedSequence :: "exn \<Rightarrow> bool" where
  "MalformedSequence e = (e \<in> {runtime_error ''Incomplete UTF-8 sequence'',
                                 runtime_error ''Invalid UTF-8 sequence'',
                                 runtime_error ''Invalid UTF-8 start byte''})"

definition InvalidSurrogate :: "exn \<Rightarrow> bool" where
  "InvalidSurrogate e = (e \<in> {runtime_error ''Incomplete surrogate pair'',
                                runtime_error ''Invalid low surrogate''})"

definition InvalidCodepoint :: "exn \<Rightarrow> bool" where
  "InvalidCodepoint e = (e = runtime_error ''Invalid Unicode code point'')"

text \<open>The kind a failure of each decoder has; the ASCII branch throws nothing.\<close>

fun failure_kind :: "Encoding \<Rightarrow> exn \<Rightarrow> bool" where
  "failure_kind ASCII e = False"
| "failure_kind UTF8 e = MalformedSequence e"
| "failure_kind UTF16_LE e = InvalidSurrogate e"
| "failure_kind UTF16_BE e = InvalidSurrogate e"
| "failure_kind UTF32_LE e = InvalidCodepoint e"
| "failure_kind UTF32_BE e = InvalidCodepoint e"

subsection \<open>Surrogates in a UTF-16 byte stream\<close>

text \<open>
  The ranges the decoders and \<open>throw_away\<close> test for, and the 16-bit unit that starts
  at byte \<open>i\<close> of the input in the given byte order (\<open>be\<close> for big-endian).
\<close>

definition is_high_surrogate :: "data_type \<Rightarrow> bool" where
  "is_high_surrogate u = (u \<ge> 0xD800 \<and> u \<le> 0xDBFF)"

definition is_low_surrogate :: "data_type \<Rightarrow> bool" where
  "is_low_surrogate u = (u \<ge> 0xDC00 \<and> u \<le> 0xDFFF)"

definition unit_at :: "bool \<Rightarrow> byte list \<Rightarrow> nat \<Rightarrow> data_type" where
  "unit_at be str i =
     (if be then push_bit 8 (ucast (str ! i)) OR ucast (str ! (i + 1))
      else push_bit 8 (ucast (str ! (i + 1))) OR ucast (str ! i))"

section \<open>Basic facts\<close>

lemma and_then_eq_Inr:
  "and_then m f = Inr y \<longleftrightarrow> (\<exists>x. m = Inr x \<and> f x = Inr y)"
  by (cases m) simp_all

lemma ensure_capacity_wf:
  assumes "well_formed s"
  shows "\<exists>s'. ensure_capacity s n = Inr s' \<and> well_formed s' \<and> len s' = len s \<and> n \<le> str_capacity s'
           \<and> str_capacity s \<le> str_capacity s'
           \<and> (\<forall>buf buf'. ptr s = Some buf \<longrightarrow> ptr s' = Some buf' \<longrightarrow>
                  take (len s) buf' = take (len s) buf)"
  using assms
  by (auto simp: ensure_capacity_def well_formed_def Let_def memcpy_def new_array_def
           split: option.splits)

lemma ensure_capacity_not_Throw: "ensure_capacity s n \<noteq> Inl (Throw e s')"
  by (auto simp: ensure_capacity_def Let_def memcpy_def new_array_def and_then_def
           split: option.splits sum.splits if_splits)

lemma store_not_Throw: "store s i v \<noteq> Inl (Throw e s')"
  by (auto simp: store_def split: option.splits)

lemma put_unit_not_Throw: "put_unit s v \<noteq> Inl (Throw e s')"
  by (auto simp: put_unit_def and_then_def store_not_Throw split: sum.splits)

lemma rd_not_Throw: "rd str i \<noteq> Inl (Throw e s')"
  by (simp add: rd_def)

lemma strlen_not_Throw: "strlen str \<noteq> Inl (Throw e s')"
  by (induction str) (auto simp: and_then_def split: sum.splits)

subsection \<open>What the decoders throw\<close>

lemma and_then_eq_Throw:
  "and_then m f = Inl (Throw e s') \<Longrightarrow>
     m = Inl (Throw e s') \<or> (\<exists>x. m = Inr x \<and> f x = Inl (Throw e s'))"
  by (cases m) simp_all

lemma utf8_step_Throw:
  "utf8_step str n s i idx = Inl (Throw e s') \<Longrightarrow> MalformedSequence e"
  unfolding utf8_step_def Let_def
  by (auto simp: MalformedSequence_def rd_not_Throw ensure_capacity_not_Throw store_not_Throw
           dest!: and_then_eq_Throw split: if_splits)

lemma convert_utf8_loop_Throw:
  "convert_utf8_loop str n s i idx = Inl (Throw e s') \<Longrightarrow> MalformedSequence e"
proof (induction str n s i idx rule: convert_utf8_loop.induct)
  case (1 str len_in s i utf16_index)
  show ?case
  proof (cases "i < len_in")
    case False
    with "1.prems" show ?thesis by (subst (asm) convert_utf8_loop.simps) simp
  next
    case True
    with "1.prems" have *:
      "and_then (utf8_step str len_in s i utf16_index)
         (\<lambda>(s', i', idx'). convert_utf8_loop str len_in s' i' idx') = Inl (Throw e s')"
      by (subst (asm) convert_utf8_loop.simps) simp
    show ?thesis
    proof (cases "utf8_step str len_in s i utf16_index")
      case (Inl f)
      with * show ?thesis by (auto dest: utf8_step_Throw)
    next
      case (Inr x)
      obtain s1 i1 idx1 where x: "x = (s1, i1, idx1)" by (cases x)
      with Inr * have "convert_utf8_loop str len_in s1 i1 idx1 = Inl (Throw e s')"
        by simp
      with "1.IH" [OF True Inr] x show ?thesis by simp
    qed
  qed
qed

lemma utf16_step_Throw:
  "utf16_step be str n s i = Inl (Throw e s') \<Longrightarrow> InvalidSurrogate e"
  unfolding utf16_step_def utf16_unit_def Let_def
  by (auto simp: InvalidSurrogate_def rd_not_Throw ensure_capacity_not_Throw put_unit_not_Throw
           dest!: and_then_eq_Throw split: if_splits)

lemma utf32_step_Throw:
  "utf32_step be str s i = Inl (Throw e s') \<Longrightarrow> InvalidCodepoint e"
  unfolding utf32_step_def utf32_code_point_def Let_def
  by (auto simp: InvalidCodepoint_def rd_not_Throw ensure_capacity_not_Throw put_unit_not_Throw
           dest!: and_then_eq_Throw split: if_splits)

lemma convert_utf16_loop_Throw:
  "convert_utf16_loop be str n s i = Inl (Throw e s') \<Longrightarrow> InvalidSurrogate e"
proof (induction be str n s i rule: convert_utf16_loop.induct)
  case (1 be str len_in s i)
  show ?case
  proof (cases "i < len_in")
    case False
    with "1.prems" show ?thesis by (subst (asm) convert_utf16_loop.simps) simp
  next
    case True
    with "1.prems" have *:
      "and_then (utf16_step be str len_in s i)
         (\<lambda>(s', i'). convert_utf16_loop be str len_in s' i') = Inl (Throw e s')"
      by (subst (asm) convert_utf16_loop.simps) simp
    show ?thesis
    proof (cases "utf16_step be str len_in s i")
      case (Inl f)
      with * show ?thesis by (auto dest: utf16_step_Throw)
    next
      case (Inr x)
      obtain s1 i1 where x: "x = (s1, i1)" by (cases x)
      with Inr * have "convert_utf16_loop be str len_in s1 i1 = Inl (Throw e s')"
        by simp
      with "1.IH" [OF True Inr] x show ?thesis by simp
    qed
  qed
qed

lemma convert_utf32_loop_Throw:
  "convert_utf32_loop be str n s i = Inl (Throw e s') \<Longrightarrow> InvalidCodepoint e"
proof (induction be str n s i rule: convert_utf32_loop.induct)
  case (1 be str len_in s i)
  show ?case
  proof (cases "i < len_in")
    case False
    with "1.prems" show ?thesis by (subst (asm) convert_utf32_loop.simps) simp
  next
    case True
    with "1.prems" have *:
      "and_then (utf32_step be str s i)
         (\<lambda>s'. convert_utf32_loop be str len_in s' (i + 4)) = Inl (Throw e s')"
      by (subst (asm) convert_utf32_loop.simps) simp
    show ?thesis
    proof (cases "utf32_step be str s i")
      case (Inl f)
      with * show ?thesis by (auto dest: utf32_step_Throw)
    next
      case (Inr s1)
      with * have "convert_utf32_loop be str len_in s1 (i + 4) = Inl (Throw e s')"
        by simp
      with "1.IH" [OF True Inr] show ?thesis by simp
    qed
  qed
qed

lemma convert_ascii_loop_not_Throw:
  "convert_ascii_loop cs str n s i \<noteq> Inl (Throw e s')"
proof (induction cs str n s i rule: convert_ascii_loop.induct)
  case (1 cs str len_in s i)
  show ?case
  proof (cases "int i < len_in")
    case False
    then show ?thesis by (subst convert_ascii_loop.simps) simp
  next
    case True
    show ?thesis
    proof (cases "rd str i")
      case (Inl f)
      with True show ?thesis
        by (subst convert_ascii_loop.simps) (use rd_not_Throw [of str i e s'] in auto)
    next
      case c: (Inr c)
      show ?thesis
      proof (cases "put_unit s (char_to_data_type cs c)")
        case (Inl f)
        with True c show ?thesis
          by (subst convert_ascii_loop.simps)
           (use put_unit_not_Throw [of s "char_to_data_type cs c" e s'] in auto)
      next
        case (Inr s1)
        with True c "1.IH" [OF True c Inr] show ?thesis
          by (subst convert_ascii_loop.simps) simp
      qed
    qed
  qed
qed

subsection \<open>Writing into a well-formed string\<close>

lemma put_unit_wf:
  assumes "well_formed s" and "len s < str_capacity s"
  shows "\<exists>s'. put_unit s v = Inr s' \<and> well_formed s' \<and> len s' = Suc (len s) \<and>
           str_capacity s' = str_capacity s \<and> units s' = units s @ [v]"
  using assms
  by (auto simp: put_unit_def store_def well_formed_def units_def take_Suc_conv_app_nth
           split: option.splits)

lemma append_unit_wf:
  assumes "well_formed s"
  shows "\<exists>s'. append_unit s v = Inr s' \<and> well_formed s' \<and> len s' = Suc (len s) \<and>
           str_capacity s \<le> str_capacity s' \<and> units s' = units s @ [v]"
proof -
  from ensure_capacity_wf [OF assms, of "len s + 1"] obtain s1 where
    s1: "ensure_capacity s (len s + 1) = Inr s1" "well_formed s1" "len s1 = len s"
        "len s + 1 \<le> str_capacity s1" "str_capacity s \<le> str_capacity s1"
        "\<forall>buf buf'. ptr s = Some buf \<longrightarrow> ptr s1 = Some buf' \<longrightarrow> take (len s) buf' = take (len s) buf"
    by blast
  from s1 have "len s1 < str_capacity s1" by simp
  from put_unit_wf [OF s1(2) this, of v] obtain s2 where
    s2: "put_unit s1 v = Inr s2" "well_formed s2" "len s2 = Suc (len s1)"
        "str_capacity s2 = str_capacity s1" "units s2 = units s1 @ [v]"
    by blast
  have "units s1 = units s"
  proof (cases "ptr s")
    case None
    with assms have "len s = 0" by (simp add: well_formed_def)
    with s1(3) None show ?thesis by (simp add: units_def split: option.splits)
  next
    case (Some buf)
    with s1 assms show ?thesis
      by (auto simp: units_def well_formed_def ensure_capacity_def Let_def and_then_def
                     new_array_def memcpy_def
               split: option.splits if_splits)
  qed
  with s1 s2 show ?thesis by (simp add: append_unit_def)
qed

lemma ensure_capacity_units:
  assumes "well_formed s"
  shows "\<exists>s'. ensure_capacity s n = Inr s' \<and> well_formed s' \<and> len s' = len s \<and>
           n \<le> str_capacity s' \<and> str_capacity s \<le> str_capacity s' \<and> units s' = units s"
  using assms
  by (auto simp: ensure_capacity_def well_formed_def Let_def memcpy_def new_array_def units_def
           split: option.splits)

lemma append_string_wf:
  assumes "well_formed s" and "well_formed other"
  shows "\<exists>s'. append_string s other = Inr s' \<and> well_formed s' \<and>
           len s' = len s + len other \<and> str_capacity s \<le> str_capacity s' \<and>
           units s' = units s @ units other"
proof -
  from ensure_capacity_units [OF assms(1), of "len s + len other"] obtain s1 where
    s1: "ensure_capacity s (len s + len other) = Inr s1" "well_formed s1" "len s1 = len s"
        "len s + len other \<le> str_capacity s1" "str_capacity s \<le> str_capacity s1"
        "units s1 = units s"
    by blast
  show ?thesis
  proof (cases "ptr s1")
    case None
    with s1 have z: "len s = 0" "len other = 0" by (simp_all add: well_formed_def)
    with None s1 show ?thesis
      by (auto simp: append_string_def memcpy_at_def well_formed_def units_def
               split: option.splits)
  next
    case d: (Some d)
    with s1 have ld: "length d = str_capacity s1" by (simp add: well_formed_def)
    show ?thesis
    proof (cases "ptr other")
      case None
      with assms(2) have "len other = 0" by (simp add: well_formed_def)
      with None d s1 show ?thesis
        by (auto simp: append_string_def memcpy_at_def units_def well_formed_def)
    next
      case (Some sr)
      with assms(2) have lsr: "len other \<le> length sr" and uo: "units other = take (len other) sr"
        by (simp_all add: well_formed_def units_def)
      from s1 d have us: "units s = take (len s) d" by (simp add: units_def)
      from s1 ld have lt: "length (take (len s) d) = len s" by simp
      define d' where "d' = take (len s) d @ take (len other) sr @ drop (len s + len other) d"
      from s1 ld lsr have ld': "length d' = str_capacity s1"
        by (simp add: d'_def)
      from lt lsr have td': "take (len s + len other) d' = take (len s) d @ take (len other) sr"
        by (simp add: d'_def)
      from Some d s1 ld lsr have "append_string s other
          = Inr (s1\<lparr>ptr := Some d', len := len s + len other\<rparr>)"
        by (simp add: append_string_def memcpy_at_def d'_def)
      with s1 ld' td' us uo show ?thesis
        by (simp add: well_formed_def units_def)
    qed
  qed
qed

section \<open>Reachable example states\<close>

text \<open>The default-constructed string, and the string \<open>ab\<close> built from it by two appends.\<close>

lemma string_default_value:
  "string_default = Inr \<lparr>ptr = Some (replicate 8 0), len = 0, str_capacity = 8\<rparr>"
  by code_simp

lemma string_ab_value:
  "and_then (append_unit \<lparr>ptr = Some (replicate 8 0), len = 0, str_capacity = 8\<rparr> 0x61)
     (\<lambda>s. append_unit s 0x62)
   = Inr \<lparr>ptr = Some [0x61, 0x62, 0, 0, 0, 0, 0, 0], len = 2, str_capacity = 8\<rparr>"
  by code_simp

section \<open>C1: decoding UTF-8 and encoding it again\<close>

text \<open>
  The ASCII branch of \<open>convert_to_utf16\<close> counts up to \<open>len_in\<close>, not to the measured
  length, so with the default length \<open>-1\<close> it stores nothing.
\<close>

lemma ascii_default_length_decodes_nothing:
  "convert_to_utf16 char_signed s str (-1) ASCII = Inr s' \<Longrightarrow> len s' = 0"
  by (auto simp: convert_to_utf16_def convert_ascii_loop.simps and_then_eq_Inr)

text \<open>
  C1 (round trip) fails on the code. \<open>string("Hello")\<close> decodes to the empty string, so
  \<open>throw_away\<close> gives no bytes back. The bytes \<open>F0 9F 98 80\<close> do decode to the units
  \<open>D83D DE00\<close>, but \<open>throw_away\<close> allocates \<open>len + 1 = 3\<close> bytes for the four it
  writes and runs past the array.
\<close>

theorem C1_round_trip_fails:
  "string_from_bytes char_signed (c_str [0x48, 0x65, 0x6C, 0x6C, 0x6F]) (-1)
     = Inr \<lparr>ptr = Some (replicate 8 0), len = 0, str_capacity = 8\<rparr>
   \<and> throw_away \<lparr>ptr = Some (replicate 8 0), len = 0, str_capacity = 8\<rparr> = Inr []
   \<and> string_from_bytes char_signed (c_str [0xF0, 0x9F, 0x98, 0x80]) (-1)
     = Inr \<lparr>ptr = Some [0xD83D, 0xDE00, 0, 0, 0, 0, 0, 0], len = 2, str_capacity = 8\<rparr>
   \<and> throw_away \<lparr>ptr = Some [0xD83D, 0xDE00, 0, 0, 0, 0, 0, 0], len = 2, str_capacity = 8\<rparr>
     = Inl UB"
  by (cases char_signed) code_simp+

section \<open>C2: byte-order marks\<close>

lemma heuristic_loop_result:
  "detect_utf8_heuristic_loop str n i c e = Inr enc \<Longrightarrow> enc = ASCII \<or> enc = UTF8"
proof (induction str n i c e rule: detect_utf8_heuristic_loop.induct)
  case (1 str len_in i c e)
  show ?case
  proof (cases "int i < len_in")
    case False
    with "1.prems" show ?thesis
      by (subst (asm) detect_utf8_heuristic_loop.simps) (auto split: if_splits)
  next
    case True
    with "1.prems" obtain byte where b: "rd str i = Inr byte"
      by (subst (asm) detect_utf8_heuristic_loop.simps) (auto simp: and_then_def split: sum.splits)
    from "1.prems" True b "1.IH" [OF True b] show ?thesis
      by (subst (asm) detect_utf8_heuristic_loop.simps) (auto split: if_splits)
  qed
qed

lemma all_of_True: "all_of cs = Inr True \<longleftrightarrow> (\<forall>c \<in> set cs. c = Inr True)"
  by (induction cs) (auto simp: and_then_def split: sum.splits)

lemma detect_encoding_never_UTF32_LE: "detect_encoding str len_in \<noteq> Inr UTF32_LE"
proof
  assume a: "detect_encoding str len_in = Inr UTF32_LE"
  define L where "L = (if len_in = -1 then and_then (strlen str) (\<lambda>n. Inr (int n)) else Inr len_in)"
  define A1 where "A1 n = all_of [Inr (n \<ge> 3), byte_is str 0 0xEF, byte_is str 1 0xBB, byte_is str 2 0xBF]" for n :: int
  define A2 where "A2 n = all_of [Inr (n \<ge> 2), byte_is str 0 0xFE, byte_is str 1 0xFF]" for n :: int
  define A3 where "A3 n = all_of [Inr (n \<ge> 2), byte_is str 0 0xFF, byte_is str 1 0xFE]" for n :: int
  define A4 where "A4 n = all_of [Inr (n \<ge> 4), byte_is str 0 0x00, byte_is str 1 0x00,
                       byte_is str 2 0xFE, byte_is str 3 0xFF]" for n :: int
  define A5 where "A5 n = all_of [Inr (n \<ge> 4), byte_is str 0 0xFF, byte_is str 1 0xFE,
                       byte_is str 2 0x00, byte_is str 3 0x00]" for n :: int
  have unfold: "detect_encoding str len_in =
     and_then L (\<lambda>n. if n < 2 then Inr ASCII else
       and_then (A1 n) (\<lambda>b1. if b1 then Inr UTF8 else
       and_then (A2 n) (\<lambda>b2. if b2 then Inr UTF16_BE else
       and_then (A3 n) (\<lambda>b3. if b3 then Inr UTF16_LE else
       and_then (A4 n) (\<lambda>b4. if b4 then Inr UTF32_BE else
       and_then (A5 n) (\<lambda>b5. if b5 then Inr UTF32_LE else
       detect_utf8_heuristic str n))))))"
    unfolding detect_encoding_def L_def A1_def A2_def A3_def A4_def A5_def ..
  have heur: "detect_utf8_heuristic str n \<noteq> Inr UTF32_LE" for n
    using heuristic_loop_result [of str n 0 0 0 UTF32_LE]
    by (auto simp: detect_utf8_heuristic_def)
  from a [unfolded unfold] heur obtain n where n: "\<not> n < 2"
    and le16: "A3 n = Inr False" and le32: "A5 n = Inr True"
    by (auto simp: and_then_eq_Inr split: if_splits)
  from le32 [unfolded A5_def all_of_True]
  have "byte_is str 0 0xFF = Inr True" "byte_is str 1 0xFE = Inr True"
    by simp_all
  with n have "A3 n = Inr True"
    unfolding A3_def all_of_True by simp
  with le16 show False by simp
qed

text \<open>
  The UTF-8 BOM, both UTF-16 BOMs and the UTF-32BE BOM are classified as C2 says,
  whatever follows them.
\<close>

lemma bom_utf8:
  "3 \<le> n \<Longrightarrow> detect_encoding (0xEF # 0xBB # 0xBF # rest) n = Inr UTF8"
  by (simp add: detect_encoding_def byte_is_def rd_def)

lemma bom_utf16be:
  "2 \<le> n \<Longrightarrow> detect_encoding (0xFE # 0xFF # rest) n = Inr UTF16_BE"
  by (simp add: detect_encoding_def byte_is_def rd_def)

lemma bom_utf16le:
  "2 \<le> n \<Longrightarrow> detect_encoding (0xFF # 0xFE # rest) n = Inr UTF16_LE"
  by (simp add: detect_encoding_def byte_is_def rd_def)

lemma bom_utf32be:
  "4 \<le> n \<Longrightarrow> detect_encoding (0x00 # 0x00 # 0xFE # 0xFF # rest) n = Inr UTF32_BE"
  by (simp add: detect_encoding_def byte_is_def rd_def)

text \<open>
  C2 fails on the code for the UTF-32LE BOM: \<open>FF FE 00 00\<close> starts with the UTF-16LE
  BOM, which is tested first, so it is classified UTF-16LE whatever follows; the
  UTF-32LE test of the source is never reached with a match.
\<close>

theorem C2_utf32le_bom_detected_as_utf16le:
  "detect_encoding (0xFF # 0xFE # 0x00 # 0x00 # rest) 4 = Inr UTF16_LE"
  by (simp add: detect_encoding_def byte_is_def rd_def)

section \<open>C3: a failing decode\<close>

text \<open>
  The kind of the error is what the specification says: whenever \<open>convert_to_utf16\<close>
  throws, the exception is of the kind of the encoding being decoded, MalformedSequence
  for UTF-8, InvalidSurrogate for UTF-16 of either byte order, InvalidCodepoint for
  UTF-32 of either byte order; the ASCII branch never throws.
\<close>

lemma decode_failure_kind:
  assumes "convert_to_utf16 char_signed s str len_in encoding = Inl (Throw e s')"
  shows "failure_kind encoding e"
proof -
  from assms obtain true_len s1 where
    dec: "(case encoding of
            ASCII \<Rightarrow> convert_ascii_loop char_signed str len_in (s1\<lparr>len := 0\<rparr>) 0
          | UTF8 \<Rightarrow> convert_utf8_to_utf16 (s1\<lparr>len := 0\<rparr>) str true_len
          | UTF16_LE \<Rightarrow> convert_utf16le_to_utf16 (s1\<lparr>len := 0\<rparr>) str true_len
          | UTF16_BE \<Rightarrow> convert_utf16be_to_utf16 (s1\<lparr>len := 0\<rparr>) str true_len
          | UTF32_LE \<Rightarrow> convert_utf32le_to_utf16 (s1\<lparr>len := 0\<rparr>) str true_len
          | UTF32_BE \<Rightarrow> convert_utf32be_to_utf16 (s1\<lparr>len := 0\<rparr>) str true_len)
         = Inl (Throw e s')"
    unfolding convert_to_utf16_def Let_def
    by (auto dest!: and_then_eq_Throw
             simp: strlen_not_Throw ensure_capacity_not_Throw split: if_splits)
  show ?thesis
  proof (cases encoding)
    case ASCII
    with dec show ?thesis by (simp add: convert_ascii_loop_not_Throw)
  next
    case UTF8
    with dec show ?thesis
      by (auto simp: convert_utf8_to_utf16_def dest: convert_utf8_loop_Throw)
  next
    case UTF16_LE
    with dec show ?thesis
      by (auto simp: convert_utf16le_to_utf16_def ensure_capacity_not_Throw
               dest!: and_then_eq_Throw dest: convert_utf16_loop_Throw)
  next
    case UTF16_BE
    with dec show ?thesis
      by (auto simp: convert_utf16be_to_utf16_def ensure_capacity_not_Throw
               dest!: and_then_eq_Throw dest: convert_utf16_loop_Throw)
  next
    case UTF32_LE
    with dec show ?thesis
      by (auto simp: convert_utf32le_to_utf16_def ensure_capacity_not_Throw
               dest!: and_then_eq_Throw dest: convert_utf32_loop_Throw)
  next
    case UTF32_BE
    with dec show ?thesis
      by (auto simp: convert_utf32be_to_utf16_def ensure_capacity_not_Throw
               dest!: and_then_eq_Throw dest: convert_utf32_loop_Throw)
  qed
qed

lemma decode_failure_kind_example:
  "convert_to_utf16 True
     \<lparr>ptr = Some [0x61, 0x62, 0, 0, 0, 0, 0, 0], len = 2, str_capacity = 8\<rparr>
     (c_str [0x41, 0xC3]) (-1) UTF8
   = Inl (Throw (runtime_error ''Incomplete UTF-8 sequence'')
            \<lparr>ptr = Some [0x41, 0x62, 0, 0, 0, 0, 0, 0], len = 0, str_capacity = 8\<rparr>)
   \<and> failure_kind UTF8 (runtime_error ''Incomplete UTF-8 sequence'')"
proof -
  have h: "convert_to_utf16 True
       \<lparr>ptr = Some [0x61, 0x62, 0, 0, 0, 0, 0, 0], len = 2, str_capacity = 8\<rparr>
       (c_str [0x41, 0xC3]) (-1) UTF8
     = Inl (Throw (runtime_error ''Incomplete UTF-8 sequence'')
              \<lparr>ptr = Some [0x41, 0x62, 0, 0, 0, 0, 0, 0], len = 0, str_capacity = 8\<rparr>)"
    by code_simp
  from decode_failure_kind [OF h] h show ?thesis by simp
qed

text \<open>
  C3 fails on the code: a failing append of byte input does not leave the stored content
  intact. \<open>append(const char *)\<close> calls \<open>convert_to_utf16\<close>, which sets the length to 0
  and decodes from index 0 before anything can fail. Appending the bytes \<open>41 C3\<close>
  (a truncated two-byte sequence after \<open>A\<close>) to the string \<open>ab\<close> throws
  \<open>Incomplete UTF-8 sequence\<close>, and the exception leaves the string with length 0 and
  its first cell overwritten.
\<close>

theorem C3_failing_append_loses_content:
  "append_bytes True \<lparr>ptr = Some [0x61, 0x62, 0, 0, 0, 0, 0, 0], len = 2, str_capacity = 8\<rparr>
     (c_str [0x41, 0xC3])
   = Inl (Throw (runtime_error ''Incomplete UTF-8 sequence'')
            \<lparr>ptr = Some [0x41, 0x62, 0, 0, 0, 0, 0, 0], len = 0, str_capacity = 8\<rparr>)"
  by code_simp

section \<open>C4: the lone byte \<open>C3\<close>\<close>

text \<open>
  C4 as stated says that constructing a string from the single byte \<open>C3\<close> fails.
  An input shorter than two bytes is classified ASCII before any UTF-8 test, so the
  constructor returns a string, with the default length and with the length 1.
\<close>

theorem C4_counterexample:
  "string_from_bytes True (c_str [0xC3]) (-1)
     = Inr \<lparr>ptr = Some (replicate 8 0), len = 0, str_capacity = 8\<rparr>
   \<and> string_from_bytes True [0xC3] 1
     = Inr \<lparr>ptr = Some [0xFFC3, 0, 0, 0, 0, 0, 0, 0], len = 1, str_capacity = 8\<rparr>"
  by code_simp

text \<open>
  C4 (amended): the UTF-8 decoder, given the single byte \<open>C3\<close>, throws
  \<open>Incomplete UTF-8 sequence\<close>, a MalformedSequence; detection classifies that input
  as ASCII, so the constructor does not reach the UTF-8 decoder.
\<close>

theorem C4_truncated_lead_in_utf8_decoder:
  "convert_utf8_to_utf16 s (0xC3 # rest) 1
     = Inl (Throw (runtime_error ''Incomplete UTF-8 sequence'') s)
   \<and> MalformedSequence (runtime_error ''Incomplete UTF-8 sequence'')
   \<and> detect_encoding (0xC3 # rest) 1 = Inr ASCII
   \<and> detect_encoding (c_str [0xC3]) (-1) = Inr ASCII"
  by (simp add: convert_utf8_to_utf16_def convert_utf8_loop.simps utf8_step_def rd_def
        MalformedSequence_def detect_encoding_def c_str_def)

section \<open>C5: ASCII input\<close>

text \<open>
  C5 fails on the code. With the default length the ASCII branch stores no unit at all
  (\<open>"Hello"\<close> gives length 0, not 5); with an explicit length and a signed \<open>char\<close>
  the byte \<open>80\<close> becomes the unit \<open>FF80\<close>, not \<open>0080\<close>.
\<close>

theorem C5_ascii_decode_fails:
  "convert_to_utf16 char_signed init_obj (c_str [0x48, 0x65, 0x6C, 0x6C, 0x6F]) (-1) ASCII
     = Inr \<lparr>ptr = Some (replicate 8 0), len = 0, str_capacity = 8\<rparr>
   \<and> convert_to_utf16 True init_obj [0x80] 1 ASCII
     = Inr \<lparr>ptr = Some [0xFF80, 0, 0, 0, 0, 0, 0, 0], len = 1, str_capacity = 8\<rparr>"
  by (cases char_signed) code_simp+

section \<open>C6: surrogates in UTF-16 input\<close>

lemma low_not_high: "is_low_surrogate u \<Longrightarrow> \<not> is_high_surrogate u"
  by (auto simp: is_low_surrogate_def is_high_surrogate_def word_le_nat_alt)

lemma utf16_unit_in_bounds:
  "i + 1 < length str \<Longrightarrow> utf16_unit be str i = Inr (unit_at be str i)"
  by (simp add: utf16_unit_def unit_at_def rd_def)

lemma even_step: "even (i::nat) \<Longrightarrow> even n \<Longrightarrow> i < n \<Longrightarrow> i + 2 \<le> n"
  by presburger

lemma utf16_step_append:
  "utf16_step be str len_in s i =
     and_then (utf16_unit be str i) (\<lambda>code_unit.
     and_then (append_unit s code_unit) (\<lambda>s2.
     if code_unit \<ge> 0xD800 \<and> code_unit \<le> 0xDBFF then
       if i + 2 \<ge> len_in then Inl (Throw (runtime_error ''Incomplete surrogate pair'') s2)
       else
       and_then (utf16_unit be str (i + 2)) (\<lambda>low_surrogate.
       if low_surrogate < 0xDC00 \<or> low_surrogate > 0xDFFF
       then Inl (Throw (runtime_error ''Invalid low surrogate'') s2)
       else
       and_then (append_unit s2 low_surrogate) (\<lambda>s4.
       Inr (s4, i + 2 + 2)))
     else Inr (s2, i + 2)))"
  by (auto simp: utf16_step_def append_unit_def and_then_def split: sum.splits)

lemma utf16_step_plain:
  assumes "well_formed s" "even len_in" "len_in \<le> length str" "even i" "i < len_in"
    and "\<not> is_high_surrogate (unit_at be str i)"
  shows "\<exists>s'. utf16_step be str len_in s i = Inr (s', i + 2) \<and> well_formed s'"
proof -
  from assms have "i + 1 < length str" using even_step [of i len_in] by simp
  then have u: "utf16_unit be str i = Inr (unit_at be str i)" by (rule utf16_unit_in_bounds)
  from append_unit_wf [OF assms(1), of "unit_at be str i"] obtain s2 where
    "append_unit s (unit_at be str i) = Inr s2" "well_formed s2" by blast
  with u assms(6) show ?thesis
    by (auto simp: utf16_step_append is_high_surrogate_def)
qed

lemma utf16_step_pair:
  assumes "well_formed s" "even len_in" "len_in \<le> length str" "even i" "i < len_in"
    and "is_high_surrogate (unit_at be str i)"
    and "i + 2 < len_in" "is_low_surrogate (unit_at be str (i + 2))"
  shows "\<exists>s'. utf16_step be str len_in s i = Inr (s', i + 4) \<and> well_formed s'"
proof -
  from assms have "i + 1 < length str" using even_step [of i len_in] by simp
  then have u: "utf16_unit be str i = Inr (unit_at be str i)" by (rule utf16_unit_in_bounds)
  from assms have "i + 2 + 1 < length str" using even_step [of "i + 2" len_in] by simp
  then have l: "utf16_unit be str (i + 2) = Inr (unit_at be str (i + 2))"
    by (rule utf16_unit_in_bounds)
  from append_unit_wf [OF assms(1), of "unit_at be str i"] obtain s2 where
    s2: "append_unit s (unit_at be str i) = Inr s2" "well_formed s2" by blast
  from append_unit_wf [OF s2(2), of "unit_at be str (i + 2)"] obtain s4 where
    "append_unit s2 (unit_at be str (i + 2)) = Inr s4" "well_formed s4" by blast
  with u l s2 assms(6,7,8) show ?thesis
    by (auto simp: utf16_step_append is_high_surrogate_def is_low_surrogate_def)
qed

lemma utf16_step_unpaired:
  assumes "well_formed s" "even len_in" "len_in \<le> length str" "even i" "i < len_in"
    and "is_high_surrogate (unit_at be str i)"
    and "\<not> (i + 2 < len_in \<and> is_low_surrogate (unit_at be str (i + 2)))"
  shows "\<exists>e s'. utf16_step be str len_in s i = Inl (Throw e s') \<and> InvalidSurrogate e"
proof -
  from assms have "i + 1 < length str" using even_step [of i len_in] by simp
  then have u: "utf16_unit be str i = Inr (unit_at be str i)" by (rule utf16_unit_in_bounds)
  from append_unit_wf [OF assms(1), of "unit_at be str i"] obtain s2 where
    s2: "append_unit s (unit_at be str i) = Inr s2" "well_formed s2" by blast
  show ?thesis
  proof (cases "i + 2 < len_in")
    case False
    with u s2 assms(6) show ?thesis
      by (simp add: utf16_step_append is_high_surrogate_def InvalidSurrogate_def)
  next
    case True
    with assms have "i + 2 + 1 < length str" using even_step [of "i + 2" len_in] by simp
    then have l: "utf16_unit be str (i + 2) = Inr (unit_at be str (i + 2))"
      by (rule utf16_unit_in_bounds)
    from True assms(7) have "\<not> is_low_surrogate (unit_at be str (i + 2))" by simp
    then have "unit_at be str (i + 2) < 0xDC00 \<or> unit_at be str (i + 2) > 0xDFFF"
      by (auto simp: is_low_surrogate_def not_le)
    with True u l s2 assms(6) show ?thesis
      by (simp add: utf16_step_append is_high_surrogate_def InvalidSurrogate_def)
  qed
qed

lemma convert_utf16_loop_unpaired:
  assumes "well_formed s" "even len_in" "len_in \<le> length str" "even j" "j \<le> i"
    and "even i" "i < len_in" "is_high_surrogate (unit_at be str i)"
    and "\<not> (i + 2 < len_in \<and> is_low_surrogate (unit_at be str (i + 2)))"
  shows "\<exists>e s'. convert_utf16_loop be str len_in s j = Inl (Throw e s') \<and> InvalidSurrogate e"
  using assms
proof (induction be str len_in s j rule: convert_utf16_loop.induct)
  case (1 be str len_in s j)
  from "1.prems" have jn: "j < len_in" by simp
  show ?case
  proof (cases "j = i")
    case True
    from utf16_step_unpaired [OF "1.prems"(1,2,3,6,7,8,9)] obtain e s' where
      "utf16_step be str len_in s i = Inl (Throw e s')" "InvalidSurrogate e" by blast
    with True jn show ?thesis
      by (subst convert_utf16_loop.simps) simp
  next
    case False
    with "1.prems" have ji: "j + 2 \<le> i" using even_step [of j i] by simp
    show ?thesis
    proof (cases "is_high_surrogate (unit_at be str j)")
      case nh: False
      from utf16_step_plain [OF "1.prems"(1,2,3,4) jn nh] obtain s1 where
        s1: "utf16_step be str len_in s j = Inr (s1, j + 2)" "well_formed s1" by blast
      from "1.prems" have "even (j + 2)" by simp
      from "1.IH" [OF jn s1(1) refl s1(2) "1.prems"(2,3) this ji "1.prems"(6,7,8,9)]
      have "\<exists>e s'. convert_utf16_loop be str len_in s1 (j + 2) = Inl (Throw e s') \<and> InvalidSurrogate e" .
      with jn s1 show ?thesis
        by (subst convert_utf16_loop.simps) simp
    next
      case h: True
      show ?thesis
      proof (cases "j + 2 < len_in \<and> is_low_surrogate (unit_at be str (j + 2))")
        case unp: False
        from utf16_step_unpaired [OF "1.prems"(1,2,3,4) jn h unp] obtain e s' where
          "utf16_step be str len_in s j = Inl (Throw e s')" "InvalidSurrogate e" by blast
        with jn show ?thesis
          by (subst convert_utf16_loop.simps) simp
      next
        case pr: True
        from utf16_step_pair [OF "1.prems"(1,2,3,4) jn h] pr obtain s1 where
          s1: "utf16_step be str len_in s j = Inr (s1, j + 4)" "well_formed s1" by blast
        from pr "1.prems"(8) have "j + 2 \<noteq> i" using low_not_high by blast
        with ji "1.prems" have ji4: "j + 4 \<le> i" using even_step [of "j + 2" i] by simp
        from "1.prems" have "even (j + 4)" by simp
        from "1.IH" [OF jn s1(1) refl s1(2) "1.prems"(2,3) this ji4 "1.prems"(6,7,8,9)]
        have "\<exists>e s'. convert_utf16_loop be str len_in s1 (j + 4) = Inl (Throw e s') \<and> InvalidSurrogate e" .
        with jn s1 show ?thesis
          by (subst convert_utf16_loop.simps) simp
      qed
    qed
  qed
qed

text \<open>
  C6 as stated says that a low surrogate with no high surrogate before it is rejected.
  The decoders test only what follows a high surrogate: the single unit \<open>DC00\<close> is
  accepted in either byte order, and through the constructor after a UTF-16LE BOM.
\<close>

theorem C6_counterexample:
  "convert_utf16le_to_utf16 init_obj [0x00, 0xDC] 2
     = Inr \<lparr>ptr = Some [0xDC00, 0, 0, 0, 0, 0, 0, 0], len = 1, str_capacity = 8\<rparr>
   \<and> convert_utf16be_to_utf16 init_obj [0xDC, 0x00] 2
     = Inr \<lparr>ptr = Some [0xDC00, 0, 0, 0, 0, 0, 0, 0], len = 1, str_capacity = 8\<rparr>
   \<and> string_from_bytes True [0xFF, 0xFE, 0x00, 0xDC] 4
     = Inr \<lparr>ptr = Some [0xFEFF, 0xDC00, 0, 0, 0, 0, 0, 0], len = 2, str_capacity = 8\<rparr>"
  by code_simp

text \<open>
  C6 (amended): decoding UTF-16 of either byte order from an input of even length into a
  well-formed string fails with InvalidSurrogate whenever some unit in \<open>D800..DBFF\<close>
  is not immediately followed by a unit in \<open>DC00..DFFF\<close>.
\<close>

theorem C6_unpaired_high_surrogate_fails:
  assumes "well_formed s" "even len_in" "len_in \<le> length str"
    and "even i" "i < len_in" "is_high_surrogate (unit_at be str i)"
    and "\<not> (i + 2 < len_in \<and> is_low_surrogate (unit_at be str (i + 2)))"
  shows "\<exists>e s'. (if be then convert_utf16be_to_utf16 s str len_in
                  else convert_utf16le_to_utf16 s str len_in) = Inl (Throw e s')
                \<and> InvalidSurrogate e"
proof -
  from ensure_capacity_wf [OF assms(1), of "len_in div 2"] obtain s1 where
    s1: "ensure_capacity s (len_in div 2) = Inr s1" "well_formed s1" by blast
  from s1(2) have wf0: "well_formed (s1\<lparr>len := 0\<rparr>)"
    by (simp add: well_formed_def split: option.splits)
  from convert_utf16_loop_unpaired [OF wf0 assms(2,3) _ _ assms(4,5,6,7), of 0]
  have "\<exists>e s'. convert_utf16_loop be str len_in (s1\<lparr>len := 0\<rparr>) 0 = Inl (Throw e s')
          \<and> InvalidSurrogate e"
    by simp
  with s1(1) show ?thesis
    by (cases be) (simp_all add: convert_utf16be_to_utf16_def convert_utf16le_to_utf16_def)
qed

theorem C6_unpaired_high_surrogate_fails_witness:
  "well_formed init_obj
   \<and> is_high_surrogate (unit_at False [0x00, 0xD8, 0x41, 0x00] 0)
   \<and> \<not> is_low_surrogate (unit_at False [0x00, 0xD8, 0x41, 0x00] 2)
   \<and> (\<exists>e s'. convert_utf16le_to_utf16 init_obj [0x00, 0xD8, 0x41, 0x00] 4 = Inl (Throw e s')
              \<and> InvalidSurrogate e)"
proof -
  have wf: "well_formed init_obj"
    by (simp add: well_formed_def init_obj_def)
  have h: "is_high_surrogate (unit_at False [0x00, 0xD8, 0x41, 0x00] 0)"
    by (simp add: is_high_surrogate_def unit_at_def)
  have l: "\<not> is_low_surrogate (unit_at False [0x00, 0xD8, 0x41, 0x00] 2)"
    by (simp add: is_low_surrogate_def unit_at_def)
  have np: "\<not> (0 + 2 < (4::nat) \<and> is_low_surrogate (unit_at False [0x00, 0xD8, 0x41, 0x00] (0 + 2)))"
    by (simp add: is_low_surrogate_def unit_at_def)
  have "\<exists>e s'. (if False then convert_utf16be_to_utf16 init_obj [0x00, 0xD8, 0x41, 0x00] 4
                 else convert_utf16le_to_utf16 init_obj [0x00, 0xD8, 0x41, 0x00] 4)
                = Inl (Throw e s') \<and> InvalidSurrogate e"
    by (rule C6_unpaired_high_surrogate_fails [OF wf _ _ _ _ h np]) simp_all
  with wf h l show ?thesis by simp
qed

section \<open>C7: the growth rule\<close>

text \<open>
  C7 as stated says that capacity 8 with required size 100 grows to 128 by repeated
  doubling. \<open>ensure_capacity\<close> doubles once and then takes the required size itself
  when the double is too small: the default-constructed string (capacity 8) grows to
  exactly 100.
\<close>

theorem C7_counterexample:
  "ensure_capacity \<lparr>ptr = Some (replicate 8 0), len = 0, str_capacity = 8\<rparr> 100
   = Inr \<lparr>ptr = Some (replicate 100 0), len = 0, str_capacity = 100\<rparr>"
  by (simp add: ensure_capacity_def new_array_def)

text \<open>
  C7 (amended): on a well-formed string \<open>ensure_capacity\<close> returns, the new capacity is
  at least the required size, it is the old capacity when that already suffices, and
  otherwise the larger of the required size and one doubling of the old capacity
  (8 when the old capacity is 0).
\<close>

theorem C7_growth_rule:
  assumes "well_formed s"
  shows "\<exists>s'. ensure_capacity s required = Inr s' \<and> required \<le> str_capacity s' \<and>
           str_capacity s' =
             (if required \<le> str_capacity s then str_capacity s
              else max required (if str_capacity s = 0 then 8 else (str_capacity s * 2) mod 2 ^ 64))"
proof (cases "required \<le> str_capacity s")
  case True
  then show ?thesis by (simp add: ensure_capacity_def)
next
  case False
  from assms obtain s' where s': "ensure_capacity s required = Inr s'"
    using ensure_capacity_wf by blast
  with False have "str_capacity s' =
      max required (if str_capacity s = 0 then 8 else (str_capacity s * 2) mod 2 ^ 64)"
    by (auto simp: ensure_capacity_def Let_def and_then_def max_def split: if_splits sum.splits)
  with s' False show ?thesis by auto
qed

theorem C7_growth_rule_witness:
  "well_formed \<lparr>ptr = Some (replicate 8 0), len = 0, str_capacity = 8\<rparr> \<and>
   (\<exists>s'. ensure_capacity \<lparr>ptr = Some (replicate 8 0), len = 0, str_capacity = 8\<rparr> 20 = Inr s' \<and>
         20 \<le> str_capacity s' \<and> str_capacity s' = 20)"
proof -
  have wf: "well_formed \<lparr>ptr = Some (replicate 8 0), len = 0, str_capacity = 8\<rparr>"
    by (simp add: well_formed_def)
  from C7_growth_rule [OF wf, of 20] wf show ?thesis by simp
qed

section \<open>C8: the invariant\<close>

text \<open>
  C8 fails on the code. Copying the default-constructed string (length 0, capacity 8)
  copies the capacity but allocates nothing, because the copy constructor allocates
  only when the length is positive: the copy has a null pointer with capacity 8. A
  later append trusts the capacity and writes through the null pointer.
\<close>

theorem C8_copy_breaks_invariant:
  "string_copy \<lparr>ptr = Some (replicate 8 0), len = 0, str_capacity = 8\<rparr>
     = Inr \<lparr>ptr = None, len = 0, str_capacity = 8\<rparr>
   \<and> \<not> invariant \<lparr>ptr = None, len = 0, str_capacity = 8\<rparr>
   \<and> append_unit \<lparr>ptr = None, len = 0, str_capacity = 8\<rparr> 0x61 = Inl UB"
  by (simp add: string_copy_def invariant_def append_unit_def ensure_capacity_def
        put_unit_def store_def)

section \<open>C9: appending\<close>

text \<open>
  Appending one code unit or another string to a well-formed string does what C9 says
  (\<open>append_unit_wf\<close> and \<open>append_string_wf\<close> above). Appending byte input does not: \<open>append(const char *)\<close>
  calls \<open>convert_to_utf16\<close>, which resets the length to 0 and decodes over the old
  content. Appending \<open>C3 A9\<close> to \<open>ab\<close> leaves the one unit \<open>E9\<close>, and appending
  the ASCII byte \<open>c\<close> leaves the empty string.
\<close>

theorem C9_append_bytes_replaces:
  "append_bytes char_signed
     \<lparr>ptr = Some [0x61, 0x62, 0, 0, 0, 0, 0, 0], len = 2, str_capacity = 8\<rparr> (c_str [0xC3, 0xA9])
     = Inr \<lparr>ptr = Some [0xE9, 0x62, 0, 0, 0, 0, 0, 0], len = 1, str_capacity = 8\<rparr>
   \<and> append_bytes char_signed
     \<lparr>ptr = Some [0x61, 0x62, 0, 0, 0, 0, 0, 0], len = 2, str_capacity = 8\<rparr> (c_str [0x63])
     = Inr \<lparr>ptr = Some [0x61, 0x62, 0, 0, 0, 0, 0, 0], len = 0, str_capacity = 8\<rparr>"
  by (cases char_signed) code_simp+

section \<open>C10: \<open>find\<close> with an empty needle\<close>

text \<open>
  C10: with an empty needle, \<open>find\<close> returns \<open>pos\<close> when \<open>pos\<close> is below the length and
  \<open>npos\<close> otherwise, the position equal to the length included.
\<close>

theorem C10_find_empty_needle:
  assumes "len needle = 0"
  shows "find_str s needle pos = Inr (if pos < len s then pos else npos)"
  using assms by (simp add: find_str_def)

theorem C10_find_empty_needle_witness:
  "len \<lparr>ptr = Some (replicate 8 0), len = 0, str_capacity = 8\<rparr> = 0 \<and>
   find_str \<lparr>ptr = Some [0x61, 0x62, 0, 0, 0, 0, 0, 0], len = 2, str_capacity = 8\<rparr>
     \<lparr>ptr = Some (replicate 8 0), len = 0, str_capacity = 8\<rparr> 1 = Inr 1 \<and>
   find_str \<lparr>ptr = Some [0x61, 0x62, 0, 0, 0, 0, 0, 0], len = 2, str_capacity = 8\<rparr>
     \<lparr>ptr = Some (replicate 8 0), len = 0, str_capacity = 8\<rparr> 2 = Inr npos"
  using C10_find_empty_needle
          [of "\<lparr>ptr = Some (replicate 8 0), len = 0, str_capacity = 8\<rparr>"
              "\<lparr>ptr = Some [0x61, 0x62, 0, 0, 0, 0, 0, 0], len = 2, str_capacity = 8\<rparr>" 1]
        C10_find_empty_needle
          [of "\<lparr>ptr = Some (replicate 8 0), len = 0, str_capacity = 8\<rparr>"
              "\<lparr>ptr = Some [0x61, 0x62, 0, 0, 0, 0, 0, 0], len = 2, str_capacity = 8\<rparr>" 2]
  by simp


end
